theory Spec2Isabelle
  imports Main "HOL-Library.Multiset" "HOL-Library.Char_ord" "HOL-Library.List_Lexorder"
begin

section \<open>Values, documents and errors\<close>

text \<open>
  A group file holds a JSON array of objects. The values of a document's fields are the
  values \<^verbatim>\<open>json.loads\<close> produces: \<^verbatim>\<open>None\<close>, booleans, integers, strings, lists and
  dictionaries with string keys. Floating-point numbers are left out of the model. A Python
  dictionary is an association list in insertion order; Python dictionaries have no repeated
  key, and lookup reads the first entry of a key.
\<close>

datatype pyval =
    VNone
  | VBool bool
  | VInt int
  | VStr string
  | VList "pyval list"
  | VDict "(string \<times> pyval) list"

type_synonym doc = "(string \<times> pyval) list"

text \<open>
  The exceptions the group engine can raise. \<^verbatim>\<open>merge\<close> turns a \<^verbatim>\<open>KeyError\<close> into a
  \<^verbatim>\<open>ValueError\<close> about the sort parameter; \<^verbatim>\<open>list.remove\<close> raises a \<^verbatim>\<open>ValueError\<close>
  of its own when the element is absent. The two are kept apart.
\<close>

datatype error =
    SortParamError
  | NotInListError
  | TypeError
  | KeyError
  | IndexError
  | AttributeError
  | InvalidFilterError
  | InvalidRegExpError

subsection \<open>Python equality\<close>

text \<open>
  \<^verbatim>\<open>bool\<close> is a subclass of \<^verbatim>\<open>int\<close>: \<^verbatim>\<open>True == 1\<close> and \<^verbatim>\<open>False == 0\<close>.
\<close>

fun num_of :: "pyval \<Rightarrow> int option" where
  "num_of (VBool b) = Some (if b then 1 else 0)"
| "num_of (VInt i) = Some i"
| "num_of v = None"

lemma size_map_of_less:
  "map_of d k = Some v \<Longrightarrow> size v < Suc (size_list (size_prod (\<lambda>x. 0) size) d)"
  by (induction d) (auto split: if_splits)

lemma size_member_less: "z \<in> set xs \<Longrightarrow> size z < Suc (size_list size xs)"
  by (simp add: less_Suc_eq_le size_list_estimation')

text \<open>
  \<^verbatim>\<open>a == b\<close>. Values of different kinds are unequal (numbers apart); lists are equal when they
  have the same length and equal elements; dictionaries are equal when they have the same keys
  and equal values under each key, whatever the order of the keys.
\<close>

function py_eq :: "pyval \<Rightarrow> pyval \<Rightarrow> bool" where
  "py_eq VNone b = (case b of VNone \<Rightarrow> True | _ \<Rightarrow> False)"
| "py_eq (VBool p) b = (num_of b = Some (if p then 1 else 0))"
| "py_eq (VInt i) b = (num_of b = Some i)"
| "py_eq (VStr s) b = (case b of VStr t \<Rightarrow> s = t | _ \<Rightarrow> False)"
| "py_eq (VList xs) b = (case b of VList ys \<Rightarrow> list_all2 py_eq xs ys | _ \<Rightarrow> False)"
| "py_eq (VDict d) b =
     (case b of
        VDict e \<Rightarrow>
          list_all
            (\<lambda>k. case map_of d k of
                    None \<Rightarrow> False
                  | Some v \<Rightarrow> (case map_of e k of None \<Rightarrow> False | Some w \<Rightarrow> py_eq v w))
            (map fst d @ map fst e)
      | _ \<Rightarrow> False)"
  by pat_completeness auto
termination
  by (relation "measure (\<lambda>(a, b). size a)")
     (auto simp: size_map_of_less size_member_less)

definition doc_eq :: "doc \<Rightarrow> doc \<Rightarrow> bool" where
  "doc_eq d e = py_eq (VDict d) (VDict e)"

subsection \<open>Python ordering\<close>

datatype cmpop = Lt | Le | Gt | Ge

fun cmp_int :: "cmpop \<Rightarrow> int \<Rightarrow> int \<Rightarrow> bool" where
  "cmp_int Lt a b = (a < b)"
| "cmp_int Le a b = (a \<le> b)"
| "cmp_int Gt a b = (b < a)"
| "cmp_int Ge a b = (b \<le> a)"

text \<open>Strings are compared character by character, a proper prefix being smaller.\<close>

fun cmp_str :: "cmpop \<Rightarrow> string \<Rightarrow> string \<Rightarrow> bool" where
  "cmp_str Lt a b = (a < b)"
| "cmp_str Le a b = (a \<le> b)"
| "cmp_str Gt a b = (b < a)"
| "cmp_str Ge a b = (b \<le> a)"

text \<open>
  \<^verbatim>\<open>a < b\<close>, \<^verbatim>\<open>a <= b\<close>, \<^verbatim>\<open>a > b\<close>, \<^verbatim>\<open>a >= b\<close>. Numbers compare with numbers and
  strings with strings. Two lists are compared at the first position where their elements are
  unequal, and by length when there is none. Every other pair raises \<^verbatim>\<open>TypeError\<close>.
  Floating-point numbers are not values of the model, and with them NaN, with which every
  comparison is false: what is proved of \<^verbatim>\<open><=\<close> here is proved of the values above.
\<close>

fun py_cmp :: "cmpop \<Rightarrow> pyval \<Rightarrow> pyval \<Rightarrow> error + bool"
  and py_cmp_list :: "cmpop \<Rightarrow> pyval list \<Rightarrow> pyval list \<Rightarrow> error + bool" where
  "py_cmp c (VList xs) b = (case b of VList ys \<Rightarrow> py_cmp_list c xs ys | _ \<Rightarrow> Inl TypeError)"
| "py_cmp c (VStr s) b = (case b of VStr t \<Rightarrow> Inr (cmp_str c s t) | _ \<Rightarrow> Inl TypeError)"
| "py_cmp c (VBool p) b =
     (case num_of b of None \<Rightarrow> Inl TypeError | Some n \<Rightarrow> Inr (cmp_int c (if p then 1 else 0) n))"
| "py_cmp c (VInt i) b =
     (case num_of b of None \<Rightarrow> Inl TypeError | Some n \<Rightarrow> Inr (cmp_int c i n))"
| "py_cmp c VNone b = Inl TypeError"
| "py_cmp c (VDict d) b = Inl TypeError"
| "py_cmp_list c [] [] = Inr (cmp_int c 0 0)"
| "py_cmp_list c [] (y # ys) = Inr (cmp_int c 0 1)"
| "py_cmp_list c (x # xs) [] = Inr (cmp_int c 1 0)"
| "py_cmp_list c (x # xs) (y # ys) =
     (if py_eq x y then py_cmp_list c xs ys else py_cmp c x y)"

subsection \<open>Dictionary operations\<close>

text \<open>\<^verbatim>\<open>d[k]\<close>: the value under \<open>k\<close>, or \<^verbatim>\<open>KeyError\<close>.\<close>

definition getitem :: "doc \<Rightarrow> string \<Rightarrow> error + pyval" where
  "getitem d k = (case map_of d k of None \<Rightarrow> Inl KeyError | Some v \<Rightarrow> Inr v)"

text \<open>\<^verbatim>\<open>d[k] = v\<close>: an existing key keeps its place, a new key goes last.\<close>

fun dict_set :: "doc \<Rightarrow> string \<Rightarrow> pyval \<Rightarrow> doc" where
  "dict_set [] k v = [(k, v)]"
| "dict_set ((k', v') # d) k v = (if k' = k then (k, v) # d else (k', v') # dict_set d k v)"

text \<open>\<^verbatim>\<open>c = d.copy(); c.update(other)\<close>: the copy with every entry of \<open>other\<close> stored.\<close>

definition dict_update :: "doc \<Rightarrow> doc \<Rightarrow> doc" where
  "dict_update d other = fold (\<lambda>(k, v) c. dict_set c k v) other d"

text \<open>
  \<^verbatim>\<open>xs.remove(x)\<close>: the list without its first element equal to \<open>x\<close>; \<open>None\<close> stands
  for the \<^verbatim>\<open>ValueError\<close> raised when no element is equal to \<open>x\<close>.
\<close>

fun list_remove :: "doc list \<Rightarrow> doc \<Rightarrow> doc list option" where
  "list_remove [] x = None"
| "list_remove (y # ys) x =
     (if doc_eq y x then Some ys
      else (case list_remove ys x of None \<Rightarrow> None | Some zs \<Rightarrow> Some (y # zs)))"

text \<open>\<^verbatim>\<open>arr[i]\<close> for an integer index: a negative index counts from the end.\<close>

definition list_index :: "'a list \<Rightarrow> int \<Rightarrow> error + 'a" where
  "list_index arr i =
     (if 0 \<le> i \<and> i < int (length arr) then Inr (arr ! nat i)
      else if i < 0 \<and> - int (length arr) \<le> i then Inr (arr ! nat (int (length arr) + i))
      else Inl IndexError)"

section \<open>Sorter: merge and merge\_sort\<close>

text \<open>
  The loop of \<^verbatim>\<open>merge\<close>. The second and third arguments are \<^verbatim>\<open>left[index_left:]\<close> and
  \<^verbatim>\<open>right[index_right:]\<close>, the last is \<^verbatim>\<open>result\<close>. A \<^verbatim>\<open>KeyError\<close> of either lookup is
  caught and raised again as the \<^verbatim>\<open>ValueError\<close> about the sort parameter; a \<^verbatim>\<open>TypeError\<close>
  of the comparison is not caught. Both indices are in range whenever the loop is entered from
  \<^verbatim>\<open>merge\<close>, so the last two equations are never reached from there.
\<close>

fun merge_loop :: "string \<Rightarrow> doc list \<Rightarrow> doc list \<Rightarrow> doc list \<Rightarrow> error + doc list" where
  "merge_loop param (l # ls) (r # rs) result =
     (case getitem l param of
        Inl e \<Rightarrow> Inl SortParamError
      | Inr a \<Rightarrow>
         (case getitem r param of
            Inl e \<Rightarrow> Inl SortParamError
          | Inr b \<Rightarrow>
             (case py_cmp Le a b of
                Inl e \<Rightarrow> Inl e
              | Inr le \<Rightarrow>
                 if le then
                   (if ls = [] then Inr (result @ [l] @ (r # rs))
                    else merge_loop param ls (r # rs) (result @ [l]))
                 else
                   (if rs = [] then Inr (result @ [r] @ (l # ls))
                    else merge_loop param (l # ls) rs (result @ [r])))))"
| "merge_loop param [] [] result = Inr result"
| "merge_loop param ls rs result = Inl IndexError"

definition merge :: "doc list \<Rightarrow> doc list \<Rightarrow> string \<Rightarrow> error + doc list" where
  "merge left right param =
     (if length left = 0 then Inr right
      else if length right = 0 then Inr left
      else merge_loop param left right [])"

function merge_sort :: "doc list \<Rightarrow> string \<Rightarrow> error + doc list" where
  "merge_sort array param =
     (if length array < 2 then Inr array
      else
        (case merge_sort (take (length array div 2) array) param of
           Inl e \<Rightarrow> Inl e
         | Inr left \<Rightarrow>
            (case merge_sort (drop (length array div 2) array) param of
               Inl e \<Rightarrow> Inl e
             | Inr right \<Rightarrow> merge left right param)))"
  by pat_completeness auto
termination
  by (relation "measure (\<lambda>(array, param). length array)") auto

declare merge_sort.simps [simp del]

section \<open>Searcher: binary\_search\<close>

text \<open>
  What \<^verbatim>\<open>get_one\<close> returns: a document, \<^verbatim>\<open>False\<close> (the binary search found nothing) or
  \<^verbatim>\<open>None\<close> (the linear scan ran off the end of the sequence).
\<close>

datatype found = Doc doc | PyFalse | PyNone

function bs_loop :: "doc list \<Rightarrow> string \<Rightarrow> pyval \<Rightarrow> int \<Rightarrow> int \<Rightarrow> error + found" where
  "bs_loop arr key v l u =
     (if l < u then
        (case list_index arr ((l + u) div 2) of
           Inl e \<Rightarrow> Inl e
         | Inr d \<Rightarrow>
            (case getitem d key of
               Inl e \<Rightarrow> Inl e
             | Inr x \<Rightarrow>
                if py_eq x v then Inr (Doc d)
                else
                  (case py_cmp Lt x v of
                     Inl e \<Rightarrow> Inl e
                   | Inr lt \<Rightarrow>
                      if lt then bs_loop arr key v ((l + u) div 2 + 1) u
                      else bs_loop arr key v l ((l + u) div 2))))
      else Inr PyFalse)"
  by pat_completeness auto
termination
  by (relation "measure (\<lambda>(arr, key, v, l, u). nat (u - l))") auto

declare bs_loop.simps [simp del]

definition binary_search :: "doc list \<Rightarrow> string \<Rightarrow> pyval \<Rightarrow> error + found" where
  "binary_search arr key v = bs_loop arr key v 0 (int (length arr) - 1)"

section \<open>FilterMatcher: matchDocs\<close>

text \<open>
  Two library functions the matcher calls are not part of the repository and are parameters of
  the model: \<open>re_match p s\<close> is \<^verbatim>\<open>re.match(p, s) != None\<close>, with \<open>None\<close> when the
  pattern does not compile, and \<open>py_str\<close> is \<^verbatim>\<open>str\<close>.
\<close>

record pylib =
  re_match :: "string \<Rightarrow> string \<Rightarrow> bool option"
  py_str :: "pyval \<Rightarrow> string"

text \<open>
  The operand of an operator is a value or, for \<^verbatim>\<open>__cf\<close>, a callable; a callable returns the
  truth value of its result, or \<open>None\<close> when it raises.
\<close>

datatype operand = OVal pyval | OFun "pyval \<Rightarrow> bool option"

text \<open>
  A filter specification as the caller writes it: a value, or a dictionary of operators whose
  operands may be callables. A value that is itself a dictionary is read as a dictionary of
  operators too, since \<^verbatim>\<open>matchDocs\<close> tests the type of its argument.
\<close>

datatype fspec = Plain pyval | Ops "(string \<times> operand) list"

type_synonym filters = "(string \<times> fspec) list"

text \<open>
  \<^verbatim>\<open>str(type(filters))\<close>: the class of a specification, printed as \<^verbatim>\<open><class 'dict'>\<close>
  for a dictionary and likewise for the other kinds of value.
\<close>

fun class_name :: "fspec \<Rightarrow> string" where
  "class_name (Ops ops) = ''dict''"
| "class_name (Plain VNone) = ''NoneType''"
| "class_name (Plain (VBool b)) = ''bool''"
| "class_name (Plain (VInt i)) = ''int''"
| "class_name (Plain (VStr s)) = ''str''"
| "class_name (Plain (VList xs)) = ''list''"
| "class_name (Plain (VDict d)) = ''dict''"

definition type_str :: "fspec \<Rightarrow> string" where
  "type_str spec = ''<class '' @ [CHR 0x27] @ class_name spec @ [CHR 0x27] @ ''>''"

text \<open>\<^verbatim>\<open>p in s\<close> for two strings: \<open>p\<close> occurs in \<open>s\<close>.\<close>

fun occurs_in :: "string \<Rightarrow> string \<Rightarrow> bool" where
  "occurs_in p [] = (p = [])"
| "occurs_in p (c # s) = (take (length p) (c # s) = p \<or> occurs_in p s)"

text \<open>
  The test \<^verbatim>\<open>"dict" in str(type(filters))\<close> by which \<^verbatim>\<open>matchDocs\<close> and \<^verbatim>\<open>get_one\<close> tell
  a dictionary of operators from a value to compare with.
\<close>

definition is_dict :: "fspec \<Rightarrow> bool" where
  "is_dict spec = occurs_in ''dict'' (type_str spec)"

lemma is_dict_simps [simp]:
  "is_dict (Ops ops)"
  "is_dict (Plain (VDict d))"
  "\<not> is_dict (Plain VNone)"
  "\<not> is_dict (Plain (VBool b))"
  "\<not> is_dict (Plain (VInt i))"
  "\<not> is_dict (Plain (VStr s))"
  "\<not> is_dict (Plain (VList xs))"
  by (simp_all add: is_dict_def type_str_def)

fun operators :: "fspec \<Rightarrow> (string \<times> operand) list" where
  "operators (Ops ops) = ops"
| "operators (Plain (VDict d)) = map (\<lambda>(k, v). (k, OVal v)) d"
| "operators (Plain v) = []"

text \<open>\<^verbatim>\<open>doc == x\<close> and the comparisons of \<open>doc\<close> with an operand; a callable is equal to no
  value and cannot be ordered.\<close>

fun operand_eq :: "pyval \<Rightarrow> operand \<Rightarrow> bool" where
  "operand_eq doc (OVal v) = py_eq doc v"
| "operand_eq doc (OFun f) = False"

fun operand_cmp :: "cmpop \<Rightarrow> pyval \<Rightarrow> operand \<Rightarrow> error + bool" where
  "operand_cmp c doc (OVal v) = py_cmp c doc v"
| "operand_cmp c doc (OFun f) = Inl TypeError"

text \<open>
  The loop of \<^verbatim>\<open>matchDocs\<close> over the operators, in the order of the dictionary. The first
  operator that rejects the value returns \<^verbatim>\<open>False\<close>; the operators after it are not looked
  at.
\<close>

fun match_ops :: "pylib \<Rightarrow> pyval \<Rightarrow> (string \<times> operand) list \<Rightarrow> error + bool" where
  "match_ops L doc [] = Inr True"
| "match_ops L doc ((i, x) # rest) =
     (if i = ''__ne'' then
        (if operand_eq doc x then Inr False else match_ops L doc rest)
      else if i = ''__gt'' then
        (case operand_cmp Le doc x of
           Inl e \<Rightarrow> Inl e
         | Inr b \<Rightarrow> if b then Inr False else match_ops L doc rest)
      else if i = ''__lt'' then
        (case operand_cmp Ge doc x of
           Inl e \<Rightarrow> Inl e
         | Inr b \<Rightarrow> if b then Inr False else match_ops L doc rest)
      else if i = ''__lte'' then
        (case operand_cmp Gt doc x of
           Inl e \<Rightarrow> Inl e
         | Inr b \<Rightarrow> if b then Inr False else match_ops L doc rest)
      else if i = ''__gte'' then
        (case operand_cmp Lt doc x of
           Inl e \<Rightarrow> Inl e
         | Inr b \<Rightarrow> if b then Inr False else match_ops L doc rest)
      else if i = ''__re'' then
        (case x of
           OVal (VStr p) \<Rightarrow>
             (case re_match L p (py_str L doc) of
                None \<Rightarrow> Inl InvalidRegExpError
              | Some m \<Rightarrow> if m then match_ops L doc rest else Inr False)
         | _ \<Rightarrow> Inl InvalidRegExpError)
      else if i = ''__cf'' then
        (case x of
           OFun f \<Rightarrow>
             (case f doc of
                None \<Rightarrow> Inl InvalidFilterError
              | Some b \<Rightarrow> if b then match_ops L doc rest else Inr False)
         | OVal v \<Rightarrow> Inl InvalidFilterError)
      else Inl InvalidFilterError)"

text \<open>The operators the loop knows, as its error message lists them.\<close>

definition known_tags :: "string list" where
  "known_tags = [''__ne'', ''__gt'', ''__lt'', ''__lte'', ''__gte'', ''__re'', ''__cf'']"

definition matchDocs :: "pylib \<Rightarrow> pyval \<Rightarrow> fspec \<Rightarrow> error + bool" where
  "matchDocs L doc spec =
     (if is_dict spec then match_ops L doc (operators spec)
      else (case spec of Plain v \<Rightarrow> Inr (py_eq v doc) | Ops ops \<Rightarrow> match_ops L doc ops))"

section \<open>The group and its queries\<close>

text \<open>
  The state of a group object: whether \<^verbatim>\<open>preLoad\<close> is set, the in-memory mirror
  \<^verbatim>\<open>self.data\<close>, and the document sequence held by the group file. The file is modelled
  by the sequence it decrypts and parses to. Every value of \<open>pyval\<close> is a value that
  \<^verbatim>\<open>json.loads\<close> returns, and \<^verbatim>\<open>json.dumps\<close> followed by \<^verbatim>\<open>json.loads\<close> gives each of them
  back unchanged, so within the model a document is written to the file as it is. An
  argument that JSON changes or refuses (a tuple, which is read back as a list; a key that is
  not a string; a set) is not a value of the model: what the operations do with one is not
  described here, and C8 below turns on it.
\<close>

record group =
  preLoad :: bool
  cache :: "doc list"
  disk :: "doc list"

text \<open>The documents a query reads: the mirror when \<^verbatim>\<open>preLoad\<close> is set, the file otherwise.\<close>

definition load_docs :: "group \<Rightarrow> doc list" where
  "load_docs g = (if preLoad g then cache g else disk g)"

text \<open>
  The inner loop of \<^verbatim>\<open>get_one\<close> and \<^verbatim>\<open>get\<close> over the filters of one document \<open>i\<close>. A
  \<^verbatim>\<open>KeyError\<close> of \<^verbatim>\<open>i[j]\<close> marks the document unmatched; an exception of \<^verbatim>\<open>matchDocs\<close>
  is not caught.
\<close>

fun doc_matches :: "pylib \<Rightarrow> doc \<Rightarrow> filters \<Rightarrow> error + bool" where
  "doc_matches L i [] = Inr True"
| "doc_matches L i ((j, spec) # fs) =
     (case getitem i j of
        Inl e \<Rightarrow> Inr False
      | Inr x \<Rightarrow>
         (case matchDocs L x spec of
            Inl e \<Rightarrow> Inl e
          | Inr m \<Rightarrow> if m then doc_matches L i fs else Inr False))"

text \<open>The linear scan of \<^verbatim>\<open>get_one\<close>: the first matching document, or \<^verbatim>\<open>None\<close>.\<close>

fun linear_scan :: "pylib \<Rightarrow> doc list \<Rightarrow> filters \<Rightarrow> error + found" where
  "linear_scan L [] fs = Inr PyNone"
| "linear_scan L (i # docs) fs =
     (case doc_matches L i fs of
        Inl e \<Rightarrow> Inl e
      | Inr m \<Rightarrow> if m then Inr (Doc i) else linear_scan L docs fs)"

text \<open>The fast path of \<^verbatim>\<open>get_one\<close>: sort by the only filter's field, then binary search.\<close>

definition fast_path :: "doc list \<Rightarrow> string \<Rightarrow> pyval \<Rightarrow> error + found" where
  "fast_path docs key v =
     (case merge_sort docs key of
        Inl e \<Rightarrow> Inl e
      | Inr sorted_docs \<Rightarrow> binary_search sorted_docs key v)"

text \<open>\<^verbatim>\<open>not sortby\<close>: no sort key was given, or an empty one.\<close>

fun no_sortby :: "string option \<Rightarrow> bool" where
  "no_sortby None = True"
| "no_sortby (Some s) = (s = [])"

text \<open>\<^verbatim>\<open>merge_sort(docs, sortby) if sortby else docs\<close>.\<close>

fun sort_if :: "doc list \<Rightarrow> string option \<Rightarrow> error + doc list" where
  "sort_if docs None = Inr docs"
| "sort_if docs (Some s) = (if s = [] then Inr docs else merge_sort docs s)"

text \<open>The general path of \<^verbatim>\<open>get_one\<close>: sort if asked to, then scan.\<close>

definition general_path :: "pylib \<Rightarrow> doc list \<Rightarrow> filters \<Rightarrow> string option \<Rightarrow> error + found" where
  "general_path L docs fs sortby =
     (case sort_if docs sortby of
        Inl e \<Rightarrow> Inl e
      | Inr sorted_docs \<Rightarrow> linear_scan L sorted_docs fs)"

text \<open>
  \<^verbatim>\<open>get_one\<close> takes the fast path when there is exactly one filter, no sort key, and the
  filter's value is not a dictionary.
\<close>

definition get_one :: "pylib \<Rightarrow> group \<Rightarrow> filters \<Rightarrow> string option \<Rightarrow> error + found" where
  "get_one L g fs sortby =
     (case fs of
        [(key, Plain v)] \<Rightarrow>
          if no_sortby sortby \<and> \<not> is_dict (Plain v) then fast_path (load_docs g) key v
          else general_path L (load_docs g) fs sortby
      | _ \<Rightarrow> general_path L (load_docs g) fs sortby)"

text \<open>The scan of \<^verbatim>\<open>get\<close>: every matching document, in the order of the sequence.\<close>

fun scan_all :: "pylib \<Rightarrow> doc list \<Rightarrow> filters \<Rightarrow> error + doc list" where
  "scan_all L [] fs = Inr []"
| "scan_all L (i # docs) fs =
     (case doc_matches L i fs of
        Inl e \<Rightarrow> Inl e
      | Inr m \<Rightarrow>
         (case scan_all L docs fs of
            Inl e \<Rightarrow> Inl e
          | Inr out \<Rightarrow> Inr (if m then i # out else out)))"

definition get :: "pylib \<Rightarrow> group \<Rightarrow> filters \<Rightarrow> string option \<Rightarrow> error + doc list" where
  "get L g fs sortby =
     (case scan_all L (load_docs g) fs of
        Inl e \<Rightarrow> Inl e
      | Inr output \<Rightarrow> sort_if output sortby)"

section \<open>MutationEngine\<close>

text \<open>
  Every operation returns its result, or the exception it raised, together with the state the
  group is left in. The file is rewritten as a whole at the end of an operation; an exception
  raised before that leaves it as it was. \<^verbatim>\<open>json.dumps\<close> raises for no value of the model,
  so the rewriting itself does not fail here, and a document reaches the mirror and the file
  as the same value (see the remark on the values of the model above).
\<close>

definition insert_doc :: "group \<Rightarrow> doc \<Rightarrow> doc \<Rightarrow> (error + bool) \<times> group" where
  "insert_doc g d moreData =
     (let new_doc = dict_update d moreData;
          g1 = (if preLoad g then g\<lparr>cache := cache g @ [new_doc]\<rparr> else g)
      in (Inr True, g1\<lparr>disk := disk g1 @ [new_doc]\<rparr>))"

definition insert_many :: "group \<Rightarrow> doc list \<Rightarrow> (error + bool) \<times> group" where
  "insert_many g ds =
     (let g1 = (if preLoad g then g\<lparr>cache := cache g @ ds\<rparr> else g)
      in (Inr True, g1\<lparr>disk := disk g1 @ ds\<rparr>))"

text \<open>
  \<^verbatim>\<open>[xs.remove(i) for i in doc]\<close>: the removals are made one after the other on the same
  list; the flag is \<open>False\<close> when one of them raised, and the list is then the list as the
  removals before it left it.
\<close>

fun remove_each :: "doc list \<Rightarrow> doc list \<Rightarrow> bool \<times> doc list" where
  "remove_each xs [] = (True, xs)"
| "remove_each xs (i # rest) =
     (case list_remove xs i of
        None \<Rightarrow> (False, xs)
      | Some ys \<Rightarrow> remove_each ys rest)"

definition update_one :: "pylib \<Rightarrow> group \<Rightarrow> filters \<Rightarrow> doc \<Rightarrow> (error + unit) \<times> group" where
  "update_one L g fs nValues =
     (case get_one L g fs None of
        Inl e \<Rightarrow> (Inl e, g)
      | Inr PyFalse \<Rightarrow> (Inl AttributeError, g)
      | Inr PyNone \<Rightarrow> (Inl AttributeError, g)
      | Inr (Doc d) \<Rightarrow>
          (let nDoc = dict_update d nValues in
           case (if preLoad g then
                   (case list_remove (cache g) d of
                      None \<Rightarrow> None
                    | Some c \<Rightarrow> Some (g\<lparr>cache := c @ [nDoc]\<rparr>))
                 else Some g) of
             None \<Rightarrow> (Inl NotInListError, g)
           | Some g1 \<Rightarrow>
               (case list_remove (disk g1) d of
                  None \<Rightarrow> (Inl NotInListError, g1)
                | Some docs \<Rightarrow> (Inr (), g1\<lparr>disk := docs @ [nDoc]\<rparr>))))"

definition update :: "pylib \<Rightarrow> group \<Rightarrow> filters \<Rightarrow> doc \<Rightarrow> (error + nat) \<times> group" where
  "update L g fs nValues =
     (case get L g fs None of
        Inl e \<Rightarrow> (Inl e, g)
      | Inr ds \<Rightarrow>
          (let nDoc = map (\<lambda>i. dict_update i nValues) ds in
           case (if preLoad g then
                   (case remove_each (cache g) ds of
                      (False, c) \<Rightarrow> Inl (g\<lparr>cache := c\<rparr>)
                    | (True, c) \<Rightarrow> Inr (g\<lparr>cache := c @ nDoc\<rparr>))
                 else Inr g) of
             Inl g1 \<Rightarrow> (Inl NotInListError, g1)
           | Inr g1 \<Rightarrow>
               (case remove_each (disk g1) ds of
                  (False, docs) \<Rightarrow> (Inl NotInListError, g1)
                | (True, docs) \<Rightarrow> (Inr (length nDoc), g1\<lparr>disk := docs @ nDoc\<rparr>))))"

text \<open>
  In \<^verbatim>\<open>remove_one\<close> a result of \<^verbatim>\<open>get_one\<close> that is not a document is handed to
  \<^verbatim>\<open>list.remove\<close>, which finds no element equal to it, the elements being dictionaries.
\<close>

definition remove_one :: "pylib \<Rightarrow> group \<Rightarrow> filters \<Rightarrow> (error + unit) \<times> group" where
  "remove_one L g fs =
     (case get_one L g fs None of
        Inl e \<Rightarrow> (Inl e, g)
      | Inr PyFalse \<Rightarrow> (Inl NotInListError, g)
      | Inr PyNone \<Rightarrow> (Inl NotInListError, g)
      | Inr (Doc d) \<Rightarrow>
          (case (if preLoad g then
                   (case list_remove (cache g) d of
                      None \<Rightarrow> None
                    | Some c \<Rightarrow> Some (g\<lparr>cache := c\<rparr>))
                 else Some g) of
             None \<Rightarrow> (Inl NotInListError, g)
           | Some g1 \<Rightarrow>
               (case list_remove (disk g1) d of
                  None \<Rightarrow> (Inl NotInListError, g1)
                | Some docs \<Rightarrow> (Inr (), g1\<lparr>disk := docs\<rparr>))))"

definition remove :: "pylib \<Rightarrow> group \<Rightarrow> filters \<Rightarrow> (error + nat) \<times> group" where
  "remove L g fs =
     (case get L g fs None of
        Inl e \<Rightarrow> (Inl e, g)
      | Inr ds \<Rightarrow>
          (case (if preLoad g then
                   (case remove_each (cache g) ds of
                      (False, c) \<Rightarrow> Inl (g\<lparr>cache := c\<rparr>)
                    | (True, c) \<Rightarrow> Inr (g\<lparr>cache := c\<rparr>))
                 else Inr g) of
             Inl g1 \<Rightarrow> (Inl NotInListError, g1)
           | Inr g1 \<Rightarrow>
               (case remove_each (disk g1) ds of
                  (False, docs) \<Rightarrow> (Inl NotInListError, g1)
                | (True, docs) \<Rightarrow> (Inr (length ds), g1\<lparr>disk := docs\<rparr>))))"

section \<open>Notions for stating what the sorter does\<close>

text \<open>
  The key values of a sequence are all numbers, or all strings: the two cases in which every
  pair of them can be ordered and the order is a linear one.
\<close>

definition number_keys :: "string \<Rightarrow> doc list \<Rightarrow> bool" where
  "number_keys k xs =
     list_all (\<lambda>d. case map_of d k of
                     None \<Rightarrow> False
                   | Some v \<Rightarrow> (case num_of v of None \<Rightarrow> False | Some n \<Rightarrow> True)) xs"

definition string_keys :: "string \<Rightarrow> doc list \<Rightarrow> bool" where
  "string_keys k xs =
     list_all (\<lambda>d. case map_of d k of Some (VStr s) \<Rightarrow> True | _ \<Rightarrow> False) xs"

text \<open>
  The key values that are present can be compared with one another: no \<^verbatim>\<open><=\<close> between two
  of them raises.
\<close>

definition comparable_keys :: "string \<Rightarrow> doc list \<Rightarrow> bool" where
  "comparable_keys k xs =
     list_all (\<lambda>d. list_all (\<lambda>e.
        case map_of d k of
          None \<Rightarrow> True
        | Some a \<Rightarrow>
           (case map_of e k of
              None \<Rightarrow> True
            | Some b \<Rightarrow> (case py_cmp Le a b of Inl err \<Rightarrow> False | Inr r \<Rightarrow> True))) xs) xs"

text \<open>\<^verbatim>\<open>d[k] <= e[k]\<close> holds, and \<^verbatim>\<open>d[k] == v\<close> holds.\<close>

definition key_le :: "string \<Rightarrow> doc \<Rightarrow> doc \<Rightarrow> bool" where
  "key_le k d e =
     (case map_of d k of
        None \<Rightarrow> False
      | Some a \<Rightarrow> (case map_of e k of None \<Rightarrow> False | Some b \<Rightarrow> py_cmp Le a b = Inr True))"

definition key_is :: "string \<Rightarrow> pyval \<Rightarrow> doc \<Rightarrow> bool" where
  "key_is k v d = (case map_of d k of None \<Rightarrow> False | Some a \<Rightarrow> py_eq a v)"

text \<open>
  For the proofs: the number and the string a document's key stands for, the textbook merge of
  two lists by a rank, and what it means for a rank to describe the comparisons of
  \<^verbatim>\<open>merge\<close> on a set of documents.
\<close>

definition num_rank :: "string \<Rightarrow> doc \<Rightarrow> int" where
  "num_rank k d =
     (case map_of d k of
        None \<Rightarrow> 0
      | Some v \<Rightarrow> (case num_of v of None \<Rightarrow> 0 | Some n \<Rightarrow> n))"

definition str_rank :: "string \<Rightarrow> doc \<Rightarrow> string" where
  "str_rank k d = (case map_of d k of Some (VStr s) \<Rightarrow> s | _ \<Rightarrow> [])"

fun ref_merge :: "(doc \<Rightarrow> 'a::linorder) \<Rightarrow> doc list \<Rightarrow> doc list \<Rightarrow> doc list" where
  "ref_merge rk [] rs = rs"
| "ref_merge rk ls [] = ls"
| "ref_merge rk (l # ls) (r # rs) =
     (if rk l \<le> rk r then l # ref_merge rk ls (r # rs) else r # ref_merge rk (l # ls) rs)"

definition ranked :: "string \<Rightarrow> (doc \<Rightarrow> 'a::linorder) \<Rightarrow> doc set \<Rightarrow> bool" where
  "ranked k rk S =
     (\<forall>d\<in>S. \<forall>e\<in>S. \<exists>a b. getitem d k = Inr a \<and> getitem e k = Inr b
        \<and> py_cmp Le a b = Inr (rk d \<le> rk e))"

section \<open>Notions for stating what update does\<close>



section \<open>A small library for concrete instances\<close>

text \<open>
  Every theorem below holds for whatever \<open>pylib\<close> the matcher is given. Concrete instances
  are evaluated with this one: its \<open>re_match\<close> agrees with \<^verbatim>\<open>re.match\<close> on patterns made of
  letters and digits with an optional leading \<^verbatim>\<open>^\<close> (such a pattern matches the strings it
  is a prefix of), and its \<open>py_str\<close> gives the string form of strings, \<^verbatim>\<open>None\<close> and
  booleans. Nothing else is asked of it.
\<close>

fun example_match :: "string \<Rightarrow> string \<Rightarrow> bool option" where
  "example_match [] s = Some True"
| "example_match (c # p) s =
     (if c = CHR ''^'' then Some (take (length p) s = p)
      else Some (take (Suc (length p)) s = c # p))"

fun example_str :: "pyval \<Rightarrow> string" where
  "example_str (VStr s) = s"
| "example_str VNone = ''None''"
| "example_str (VBool b) = (if b then ''True'' else ''False'')"
| "example_str v = []"

definition example_lib :: pylib where
  "example_lib = \<lparr>re_match = example_match, py_str = example_str\<rparr>"

section \<open>Example groups\<close>




section \<open>Properties of equality\<close>

lemma py_eq_sym: "py_eq a b = py_eq b a"
proof (induction a arbitrary: b)
  case VNone
  then show ?case by (cases b) auto
next
  case (VBool p)
  then show ?case by (cases b) auto
next
  case (VInt i)
  then show ?case by (cases b) auto
next
  case (VStr s)
  then show ?case by (cases b) auto
next
  case (VList xs)
  show ?case
  proof (cases b)
    case (VList ys)
    have nth_sym: "py_eq (xs ! i) w = py_eq w (xs ! i)" if "i < length xs" for i w
      using VList.IH[OF nth_mem[OF that]] .
    have "list_all2 py_eq xs ys = list_all2 py_eq ys xs"
      by (auto simp: list_all2_conv_all_nth nth_sym)
    then show ?thesis using VList by simp
  qed auto
next
  case (VDict d)
  show ?case
  proof (cases b)
    case (VDict e)
    have eqv: "py_eq v w = py_eq w v" if "map_of d k = Some v" for k v w
      using VDict.IH[of "(k, v)" v w] map_of_SomeD[OF that] by auto
    have "(case map_of d k of None \<Rightarrow> False
            | Some v \<Rightarrow> (case map_of e k of None \<Rightarrow> False | Some w \<Rightarrow> py_eq v w))
        = (case map_of e k of None \<Rightarrow> False
            | Some w \<Rightarrow> (case map_of d k of None \<Rightarrow> False | Some v \<Rightarrow> py_eq w v))" for k
      using eqv by (auto split: option.splits)
    then show ?thesis using VDict
      by (auto simp: list_all_iff)
  qed auto
qed



section \<open>The sorter keeps the documents\<close>

lemma merge_loop_mset:
  "merge_loop param ls rs acc = Inr ys \<Longrightarrow> mset ys = mset acc + mset ls + mset rs"
  by (induction param ls rs acc arbitrary: ys rule: merge_loop.induct)
     (auto split: sum.splits if_splits)

lemma merge_mset: "merge left right param = Inr ys \<Longrightarrow> mset ys = mset left + mset right"
  by (auto simp: merge_def dest: merge_loop_mset split: if_splits)

lemma merge_sort_unfold:
  "\<not> length array < 2 \<Longrightarrow> merge_sort array param = Inr ys \<Longrightarrow>
     \<exists>left right.
       merge_sort (take (length array div 2) array) param = Inr left
     \<and> merge_sort (drop (length array div 2) array) param = Inr right
     \<and> merge left right param = Inr ys"
  by (subst (asm) merge_sort.simps) (auto split: sum.splits)

lemma merge_sort_mset: "merge_sort xs param = Inr ys \<Longrightarrow> mset ys = mset xs"
proof (induction xs param arbitrary: ys rule: merge_sort.induct)
  case (1 array param)
  show ?case
  proof (cases "length array < 2")
    case True
    with "1.prems" show ?thesis by (simp add: merge_sort.simps)
  next
    case False
    from merge_sort_unfold[OF False "1.prems"] obtain left right where
      l: "merge_sort (take (length array div 2) array) param = Inr left" and
      r: "merge_sort (drop (length array div 2) array) param = Inr right" and
      m: "merge left right param = Inr ys"
      by blast
    have "mset left = mset (take (length array div 2) array)"
      using "1.IH"(1)[OF False l] .
    moreover have "mset right = mset (drop (length array div 2) array)"
      using "1.IH"(2)[OF False l r] .
    moreover have "mset (take (length array div 2) array)
        + mset (drop (length array div 2) array) = mset array"
      by (metis append_take_drop_id mset_append)
    ultimately show ?thesis using merge_mset[OF m] by simp
  qed
qed

lemma merge_sort_set: "merge_sort xs param = Inr ys \<Longrightarrow> set ys = set xs"
  by (metis merge_sort_mset set_mset_mset)

section \<open>What a query can return\<close>

lemma bs_loop_found:
  "bs_loop arr key v l u = Inr (Doc d) \<Longrightarrow> 0 \<le> l \<Longrightarrow>
     d \<in> set arr \<and> (\<exists>x. getitem d key = Inr x \<and> py_eq x v)"
proof (induction arr key v l u rule: bs_loop.induct)
  case (1 arr key v l u)
  from "1.prems"(1) have lu: "l < u"
    by (subst (asm) bs_loop.simps) (auto split: if_splits)
  from "1.prems"(1) lu obtain m x where
    m: "list_index arr ((l + u) div 2) = Inr m" and x: "getitem m key = Inr x"
    by (subst (asm) bs_loop.simps) (auto split: sum.splits)
  have mem: "m \<in> set arr"
    using m by (auto simp: list_index_def Let_def split: if_splits)
  show ?case
  proof (cases "py_eq x v")
    case True
    with "1.prems"(1) lu m x have "d = m"
      by (subst (asm) bs_loop.simps) auto
    with mem x True show ?thesis by auto
  next
    case False
    with "1.prems"(1) lu m x obtain lt where lt: "py_cmp Lt x v = Inr lt"
      by (subst (asm) bs_loop.simps) (auto split: sum.splits)
    show ?thesis
    proof (cases lt)
      case True
      with "1.prems"(1) lu m x False lt
      have "bs_loop arr key v ((l + u) div 2 + 1) u = Inr (Doc d)"
        by (subst (asm) bs_loop.simps) auto
      moreover have "0 \<le> (l + u) div 2 + 1" using "1.prems"(2) lu by simp
      ultimately show ?thesis
        using "1.IH"(1)[OF lu m x False lt True] by simp
    next
      case F: False
      with "1.prems"(1) lu m x False lt
      have "bs_loop arr key v l ((l + u) div 2) = Inr (Doc d)"
        by (subst (asm) bs_loop.simps) auto
      then show ?thesis
        using "1.IH"(2)[OF lu m x False lt F] "1.prems"(2) by simp
    qed
  qed
qed

lemma binary_search_found:
  "binary_search arr key v = Inr (Doc d) \<Longrightarrow>
     d \<in> set arr \<and> (\<exists>x. getitem d key = Inr x \<and> py_eq x v)"
  using bs_loop_found[of arr key v 0 "int (length arr) - 1" d]
  by (simp add: binary_search_def)

lemma fast_path_found:
  assumes "fast_path docs key v = Inr (Doc d)"
  shows "d \<in> set docs \<and> (\<exists>x. getitem d key = Inr x \<and> py_eq x v)"
proof -
  from assms obtain s where
    s: "merge_sort docs key = Inr s" and b: "binary_search s key v = Inr (Doc d)"
    by (auto simp: fast_path_def split: sum.splits)
  from binary_search_found[OF b] merge_sort_set[OF s] show ?thesis by simp
qed

lemma linear_scan_found:
  "linear_scan L docs fs = Inr (Doc d) \<Longrightarrow> d \<in> set docs \<and> doc_matches L d fs = Inr True"
  by (induction docs) (auto split: sum.splits if_splits)

lemma sort_if_set: "sort_if docs sortby = Inr s \<Longrightarrow> set s = set docs"
  by (cases sortby) (auto split: if_splits dest: merge_sort_set)

lemma general_path_found:
  "general_path L docs fs sortby = Inr (Doc d) \<Longrightarrow>
     d \<in> set docs \<and> doc_matches L d fs = Inr True"
  by (auto simp: general_path_def split: sum.splits dest: linear_scan_found sort_if_set)

lemma get_one_found:
  assumes "get_one L g fs sortby = Inr (Doc d)"
  shows "d \<in> set (load_docs g) \<and> doc_matches L d fs = Inr True"
proof (cases "\<exists>key v. fs = [(key, Plain v)] \<and> no_sortby sortby \<and> \<not> is_dict (Plain v)")
  case True
  then obtain key v where
    fs: "fs = [(key, Plain v)]" and c: "no_sortby sortby" "\<not> is_dict (Plain v)"
    by blast
  with assms have "fast_path (load_docs g) key v = Inr (Doc d)"
    by (simp add: get_one_def)
  from fast_path_found[OF this] obtain x where
    "d \<in> set (load_docs g)" "getitem d key = Inr x" "py_eq x v" by blast
  then show ?thesis using fs c by (simp add: matchDocs_def py_eq_sym[of v x])
next
  case False
  with assms have "general_path L (load_docs g) fs sortby = Inr (Doc d)"
    by (auto simp: get_one_def split: list.splits prod.splits fspec.splits if_splits)
  then show ?thesis by (rule general_path_found)
qed

section \<open>Properties of the matcher\<close>

lemma match_ops_unknown:
  "tag \<notin> set known_tags \<Longrightarrow> match_ops L x ((tag, y) # rest) = Inl InvalidFilterError"
  by (simp add: known_tags_def)

lemma match_ops_Cons:
  "match_ops L x ((i, y) # rest) =
     (case match_ops L x [(i, y)] of
        Inl e \<Rightarrow> Inl e
      | Inr m \<Rightarrow> if m then match_ops L x rest else Inr False)"
proof -
  consider "i = ''__ne''" | "i = ''__gt''" | "i = ''__lt''" | "i = ''__lte''" | "i = ''__gte''"
    | "i = ''__re''" | "i = ''__cf''" | "i \<notin> set known_tags"
    by (auto simp: known_tags_def)
  then show ?thesis
  proof cases
    case 1
    then show ?thesis by simp
  next
    case 2
    then show ?thesis by (simp split: sum.splits)
  next
    case 3
    then show ?thesis by (simp split: sum.splits)
  next
    case 4
    then show ?thesis by (simp split: sum.splits)
  next
    case 5
    then show ?thesis by (simp split: sum.splits)
  next
    case 6
    then show ?thesis by (simp split: operand.splits pyval.splits option.splits)
  next
    case 7
    then show ?thesis by (simp split: operand.splits option.splits)
  next
    case 8
    then show ?thesis by (simp add: match_ops_unknown del: match_ops.simps)
  qed
qed

lemma match_ops_append:
  "match_ops L x (pre @ ops) =
     (case match_ops L x pre of
        Inl e \<Rightarrow> Inl e
      | Inr m \<Rightarrow> if m then match_ops L x ops else Inr False)"
proof (induction pre)
  case Nil
  then show ?case by simp
next
  case (Cons a pre)
  obtain i y where a: "a = (i, y)" by (cases a)
  show ?case
    unfolding a append_Cons
    by (subst match_ops_Cons, subst (2) match_ops_Cons, simp only: Cons.IH)
       (simp split: sum.splits del: match_ops.simps)
qed

section \<open>Sorting under a rank\<close>

lemma ref_merge_mset: "mset (ref_merge rk ls rs) = mset ls + mset rs"
  by (induction rk ls rs rule: ref_merge.induct) auto

lemma ref_merge_set: "set (ref_merge rk ls rs) = set ls \<union> set rs"
  by (induction rk ls rs rule: ref_merge.induct) auto

lemma ref_merge_sorted:
  "sorted (map rk ls) \<Longrightarrow> sorted (map rk rs) \<Longrightarrow> sorted (map rk (ref_merge rk ls rs))"
  by (induction rk ls rs rule: ref_merge.induct) (auto simp: ref_merge_set)

lemma ref_merge_stable:
  "sorted (map rk ls) \<Longrightarrow> sorted (map rk rs) \<Longrightarrow>
     filter (\<lambda>d. rk d = c) (ref_merge rk ls rs)
       = filter (\<lambda>d. rk d = c) ls @ filter (\<lambda>d. rk d = c) rs"
proof (induction rk ls rs rule: ref_merge.induct)
  case (3 rk l ls r rs)
  show ?case
  proof (cases "rk l \<le> rk r")
    case True
    with 3 show ?thesis by simp
  next
    case False
    have none: "filter (\<lambda>d. rk d = rk r) (l # ls) = []"
      using False "3.prems"(1) by (auto simp: filter_empty_conv)
    from False 3 have "filter (\<lambda>d. rk d = c) (ref_merge rk (l # ls) (r # rs))
        = filter (\<lambda>d. rk d = c) [r] @ filter (\<lambda>d. rk d = c) (l # ls) @ filter (\<lambda>d. rk d = c) rs"
      by simp
    also have "\<dots> = filter (\<lambda>d. rk d = c) (l # ls) @ filter (\<lambda>d. rk d = c) (r # rs)"
      using none by (cases "rk r = c") auto
    finally show ?thesis .
  qed
qed auto

lemma rankedD:
  "ranked k rk S \<Longrightarrow> d \<in> S \<Longrightarrow> e \<in> S \<Longrightarrow>
     \<exists>a b. getitem d k = Inr a \<and> getitem e k = Inr b \<and> py_cmp Le a b = Inr (rk d \<le> rk e)"
  by (auto simp: ranked_def)

lemma merge_loop_ref:
  "ranked k rk S \<Longrightarrow> ls \<noteq> [] \<Longrightarrow> rs \<noteq> [] \<Longrightarrow> set ls \<subseteq> S \<Longrightarrow> set rs \<subseteq> S \<Longrightarrow>
     merge_loop k ls rs acc = Inr (acc @ ref_merge rk ls rs)"
proof (induction k ls rs acc rule: merge_loop.induct)
  case (1 param l ls r rs result)
  note ok = "1.prems"(1)
  from "1.prems" have lS: "l \<in> S" and rS: "r \<in> S" by auto
  from rankedD[OF ok lS rS] obtain a b where
    a: "getitem l param = Inr a" and b: "getitem r param = Inr b"
    and c: "py_cmp Le a b = Inr (rk l \<le> rk r)" by blast
  show ?case
  proof (cases "rk l \<le> rk r")
    case True
    show ?thesis
    proof (cases "ls = []")
      case T: True
      with a b c True show ?thesis by simp
    next
      case F: False
      have "merge_loop param ls (r # rs) (result @ [l])
          = Inr ((result @ [l]) @ ref_merge rk ls (r # rs))"
        using "1.IH"(1)[OF a b c True F ok F] "1.prems" by simp
      with a b c True F show ?thesis by simp
    qed
  next
    case False
    show ?thesis
    proof (cases "rs = []")
      case T: True
      with a b c False show ?thesis by simp
    next
      case F: False
      have "merge_loop param (l # ls) rs (result @ [r])
          = Inr ((result @ [r]) @ ref_merge rk (l # ls) rs)"
        using "1.IH"(2)[OF a b c False F ok] F "1.prems" by simp
      with a b c False F show ?thesis by simp
    qed
  qed
qed auto

lemma merge_ref:
  "ranked k rk S \<Longrightarrow> set ls \<subseteq> S \<Longrightarrow> set rs \<subseteq> S \<Longrightarrow> merge ls rs k = Inr (ref_merge rk ls rs)"
  using merge_loop_ref[of k rk S ls rs "[]"]
  by (cases ls; cases rs) (auto simp: merge_def)

lemma merge_sort_ranked:
  "ranked k rk S \<Longrightarrow> set xs \<subseteq> S \<Longrightarrow>
     \<exists>ys. merge_sort xs k = Inr ys \<and> mset ys = mset xs \<and> sorted (map rk ys)
         \<and> (\<forall>c. filter (\<lambda>d. rk d = c) ys = filter (\<lambda>d. rk d = c) xs)"
proof (induction xs k rule: merge_sort.induct)
  case (1 array param)
  show ?case
  proof (cases "length array < 2")
    case True
    then have "sorted (map rk array)"
      by (cases array rule: list.exhaust[case_names Nil Cons]) (auto simp: Suc_less_eq2 dest!: less_2_cases)
    with True show ?thesis by (simp add: merge_sort.simps)
  next
    case False
    let ?l = "take (length array div 2) array" and ?r = "drop (length array div 2) array"
    have sub: "set ?l \<subseteq> S" "set ?r \<subseteq> S"
      using "1.prems"(2) set_take_subset set_drop_subset by fast+
    from "1.IH"(1)[OF False "1.prems"(1) sub(1)] obtain left where
      l: "merge_sort ?l param = Inr left" "mset left = mset ?l" "sorted (map rk left)"
         "\<And>c. filter (\<lambda>d. rk d = c) left = filter (\<lambda>d. rk d = c) ?l" by blast
    from "1.IH"(2)[OF False l(1) "1.prems"(1) sub(2)] obtain right where
      r: "merge_sort ?r param = Inr right" "mset right = mset ?r" "sorted (map rk right)"
         "\<And>c. filter (\<lambda>d. rk d = c) right = filter (\<lambda>d. rk d = c) ?r" by blast
    have "set left = set ?l" "set right = set ?r"
      using l(2) r(2) by (metis set_mset_mset)+
    with sub have sub': "set left \<subseteq> S" "set right \<subseteq> S" by auto
    have m: "merge left right param = Inr (ref_merge rk left right)"
      by (rule merge_ref[OF "1.prems"(1) sub'])
    have ms: "merge_sort array param = Inr (ref_merge rk left right)"
      using False l(1) r(1) m by (subst merge_sort.simps) simp
    have "mset (ref_merge rk left right) = mset array"
      using l(2) r(2) by (simp add: ref_merge_mset) (metis append_take_drop_id mset_append)
    moreover have "sorted (map rk (ref_merge rk left right))"
      using l(3) r(3) by (rule ref_merge_sorted)
    moreover have "filter (\<lambda>d. rk d = c) (ref_merge rk left right) = filter (\<lambda>d. rk d = c) array" for c
    proof -
      have "filter (\<lambda>d. rk d = c) (ref_merge rk left right)
          = filter (\<lambda>d. rk d = c) ?l @ filter (\<lambda>d. rk d = c) ?r"
        using ref_merge_stable[OF l(3) r(3)] l(4) r(4) by simp
      also have "\<dots> = filter (\<lambda>d. rk d = c) array"
        by (metis filter_append append_take_drop_id)
      finally show ?thesis .
    qed
    ultimately show ?thesis using ms by blast
  qed
qed

lemma py_cmp_num:
  "num_of a = Some m \<Longrightarrow> num_of b = Some n \<Longrightarrow> py_cmp c a b = Inr (cmp_int c m n)"
  by (cases a) (auto split: if_splits)

lemma py_eq_num: "num_of a = Some m \<Longrightarrow> py_eq a v = (num_of v = Some m)"
  by (cases a) (auto split: if_splits)

lemma number_keysD:
  assumes "number_keys k xs" and "d \<in> set xs"
  shows "\<exists>a m. map_of d k = Some a \<and> num_of a = Some m"
proof -
  from assms have "case map_of d k of None \<Rightarrow> False
      | Some v \<Rightarrow> (case num_of v of None \<Rightarrow> False | Some n \<Rightarrow> True)"
    by (simp add: number_keys_def list_all_iff)
  then show ?thesis
    by (cases "map_of d k"; simp split: option.splits)
qed

lemma string_keysD:
  assumes "string_keys k xs" and "d \<in> set xs"
  shows "\<exists>s. map_of d k = Some (VStr s)"
proof -
  from assms have "case map_of d k of Some (VStr s) \<Rightarrow> True | _ \<Rightarrow> False"
    by (simp add: string_keys_def list_all_iff)
  then show ?thesis
    by (cases "map_of d k"; simp split: pyval.splits)
qed

lemma ranked_numbers:
  assumes "number_keys k xs"
  shows "ranked k (num_rank k) (set xs)"
  unfolding ranked_def
proof (intro ballI)
  fix d e
  assume d: "d \<in> set xs" and e: "e \<in> set xs"
  from number_keysD[OF assms d] obtain a m where a: "map_of d k = Some a" "num_of a = Some m"
    by blast
  from number_keysD[OF assms e] obtain b n where b: "map_of e k = Some b" "num_of b = Some n"
    by blast
  show "\<exists>a b. getitem d k = Inr a \<and> getitem e k = Inr b
          \<and> py_cmp Le a b = Inr (num_rank k d \<le> num_rank k e)"
    using a b py_cmp_num[OF a(2) b(2), of Le] by (simp add: getitem_def num_rank_def)
qed

lemma ranked_strings:
  assumes "string_keys k xs"
  shows "ranked k (str_rank k) (set xs)"
  unfolding ranked_def
proof (intro ballI)
  fix d e
  assume d: "d \<in> set xs" and e: "e \<in> set xs"
  from string_keysD[OF assms d] obtain s where a: "map_of d k = Some (VStr s)" ..
  from string_keysD[OF assms e] obtain t where b: "map_of e k = Some (VStr t)" ..
  show "\<exists>a b. getitem d k = Inr a \<and> getitem e k = Inr b
          \<and> py_cmp Le a b = Inr (str_rank k d \<le> str_rank k e)"
    using a b by (simp add: getitem_def str_rank_def)
qed

lemma ranked_key_le:
  "ranked k rk S \<Longrightarrow> d \<in> S \<Longrightarrow> e \<in> S \<Longrightarrow> key_le k d e = (rk d \<le> rk e)"
  by (drule (2) rankedD) (auto simp: key_le_def getitem_def split: option.splits)

lemma sorted_by_rank:
  assumes rk: "ranked k rk (set xs)"
    and cls: "\<And>v. (\<forall>d\<in>set xs. \<not> key_is k v d) \<or> (\<exists>c. \<forall>d\<in>set xs. key_is k v d = (rk d = c))"
  shows "\<exists>ys. merge_sort xs k = Inr ys \<and> mset ys = mset xs \<and> sorted_wrt (key_le k) ys
           \<and> (\<forall>v. filter (key_is k v) ys = filter (key_is k v) xs)"
proof -
  from merge_sort_ranked[OF rk subset_refl] obtain ys where
    ys: "merge_sort xs k = Inr ys" "mset ys = mset xs" "sorted (map rk ys)"
        "\<And>c. filter (\<lambda>d. rk d = c) ys = filter (\<lambda>d. rk d = c) xs" by blast
  have set_eq: "set ys = set xs" using ys(2) by (metis set_mset_mset)
  have "sorted_wrt (\<lambda>d e. rk d \<le> rk e) ys"
    using ys(3) by (simp add: sorted_map)
  then have s: "sorted_wrt (key_le k) ys"
    by (rule sorted_wrt_mono_rel[rotated]) (simp add: ranked_key_le[OF rk] set_eq)
  have "filter (key_is k v) ys = filter (key_is k v) xs" for v
  proof -
    from cls[of v] show ?thesis
    proof
      assume "\<forall>d\<in>set xs. \<not> key_is k v d"
      then show ?thesis using set_eq by (simp add: filter_empty_conv[THEN iffD2])
    next
      assume "\<exists>c. \<forall>d\<in>set xs. key_is k v d = (rk d = c)"
      then obtain c where c: "\<forall>d\<in>set xs. key_is k v d = (rk d = c)" ..
      have "filter (key_is k v) ys = filter (\<lambda>d. rk d = c) ys"
        using c set_eq by (auto intro: filter_cong)
      also have "\<dots> = filter (\<lambda>d. rk d = c) xs" by (rule ys(4))
      also have "\<dots> = filter (key_is k v) xs"
        using c by (auto intro: filter_cong)
      finally show ?thesis .
    qed
  qed
  with ys(1,2) s show ?thesis by blast
qed

section \<open>When the sort raises\<close>

lemma comparable_keysD:
  assumes "comparable_keys k xs" "d \<in> set xs" "e \<in> set xs"
    "getitem d k = Inr a" "getitem e k = Inr b"
  shows "\<exists>r. py_cmp Le a b = Inr r"
proof -
  from assms(4,5) have ab: "map_of d k = Some a" "map_of e k = Some b"
    by (auto simp: getitem_def split: option.splits)
  from assms(1-3) have "case map_of d k of
          None \<Rightarrow> True
        | Some a \<Rightarrow>
           (case map_of e k of
              None \<Rightarrow> True
            | Some b \<Rightarrow> (case py_cmp Le a b of Inl err \<Rightarrow> False | Inr r \<Rightarrow> True))"
    by (simp add: comparable_keys_def list_all_iff)
  with ab show ?thesis by (cases "py_cmp Le a b") simp_all
qed

lemma comparable_keys_subset:
  "comparable_keys k xs \<Longrightarrow> set ys \<subseteq> set xs \<Longrightarrow> comparable_keys k ys"
  by (auto simp: comparable_keys_def list_all_iff)

lemma merge_loop_error:
  "merge_loop k ls rs acc = Inl err \<Longrightarrow> ls \<noteq> [] \<Longrightarrow> rs \<noteq> [] \<Longrightarrow>
     comparable_keys k (ls @ rs) \<Longrightarrow> err = SortParamError"
proof (induction k ls rs acc rule: merge_loop.induct)
  case (1 param l ls r rs result)
  show ?case
  proof (cases "getitem l param")
    case (Inl e1)
    with "1.prems"(1) show ?thesis by simp
  next
    case a: (Inr a)
    show ?thesis
    proof (cases "getitem r param")
      case (Inl e2)
      with a "1.prems"(1) show ?thesis by simp
    next
      case b: (Inr b)
      from comparable_keysD[OF "1.prems"(4) _ _ a b] obtain le where c: "py_cmp Le a b = Inr le"
        by auto
      show ?thesis
      proof (cases le)
        case True
        with "1.prems"(1) a b c have ne: "ls \<noteq> []"
          and rec: "merge_loop param ls (r # rs) (result @ [l]) = Inl err"
          by (auto split: if_splits)
        have "comparable_keys param (ls @ r # rs)"
          by (rule comparable_keys_subset[OF "1.prems"(4)]) auto
        from "1.IH"(1)[OF a b c True ne rec ne _ this] show ?thesis by simp
      next
        case False
        with "1.prems"(1) a b c have ne: "rs \<noteq> []"
          and rec: "merge_loop param (l # ls) rs (result @ [r]) = Inl err"
          by (auto split: if_splits)
        have "comparable_keys param ((l # ls) @ rs)"
          by (rule comparable_keys_subset[OF "1.prems"(4)]) auto
        from "1.IH"(2)[OF a b c False ne rec _ ne this] show ?thesis by simp
      qed
    qed
  qed
qed auto

lemma merge_sort_error:
  "merge_sort xs k = Inl err \<Longrightarrow> comparable_keys k xs \<Longrightarrow> err = SortParamError"
proof (induction xs k rule: merge_sort.induct)
  case (1 array param)
  let ?l = "take (length array div 2) array" and ?r = "drop (length array div 2) array"
  from "1.prems"(1) have big: "\<not> length array < 2"
    by (subst (asm) merge_sort.simps) (auto split: if_splits)
  have cl: "comparable_keys param ?l"
    by (rule comparable_keys_subset[OF "1.prems"(2) set_take_subset])
  have cr: "comparable_keys param ?r"
    by (rule comparable_keys_subset[OF "1.prems"(2) set_drop_subset])
  show ?case
  proof (cases "merge_sort ?l param")
    case (Inl e)
    with "1.prems"(1) big have "e = err" by (subst (asm) merge_sort.simps) simp
    with "1.IH"(1)[OF big _ cl] Inl show ?thesis by simp
  next
    case l: (Inr left)
    show ?thesis
    proof (cases "merge_sort ?r param")
      case (Inl e)
      with "1.prems"(1) big l have "e = err" by (subst (asm) merge_sort.simps) simp
      with "1.IH"(2)[OF big l _ cr] Inl show ?thesis by simp
    next
      case r: (Inr right)
      with "1.prems"(1) big l have m: "merge left right param = Inl err"
        by (subst (asm) merge_sort.simps) simp
      then have ne: "left \<noteq> []" "right \<noteq> []" and ml: "merge_loop param left right [] = Inl err"
        by (auto simp: merge_def split: if_splits)
      have "set left \<subseteq> set array"
        unfolding merge_sort_set[OF l] by (rule set_take_subset)
      moreover have "set right \<subseteq> set array"
        unfolding merge_sort_set[OF r] by (rule set_drop_subset)
      ultimately have "set (left @ right) \<subseteq> set array" by simp
      from merge_loop_error[OF ml ne comparable_keys_subset[OF "1.prems"(2) this]]
      show ?thesis .
    qed
  qed
qed

lemma merge_heads_have_key:
  assumes "merge left right k = Inr ys" "left \<noteq> []" "right \<noteq> []"
  shows "map_of (hd left) k \<noteq> None \<and> map_of (hd right) k \<noteq> None"
proof -
  obtain l ls r rs where "left = l # ls" "right = r # rs"
    using assms(2,3) by (cases left; cases right) auto
  with assms(1) show ?thesis
    by (auto simp: merge_def getitem_def split: sum.splits option.splits)
qed

lemma merge_sort_has_keys:
  "merge_sort xs k = Inr ys \<Longrightarrow> 2 \<le> length xs \<Longrightarrow> d \<in> set xs \<Longrightarrow> map_of d k \<noteq> None"
proof (induction xs k arbitrary: ys d rule: merge_sort.induct)
  case (1 array param)
  let ?l = "take (length array div 2) array" and ?r = "drop (length array div 2) array"
  from "1.prems"(2) have big: "\<not> length array < 2" by simp
  from merge_sort_unfold[OF big "1.prems"(1)] obtain left right where
    l: "merge_sort ?l param = Inr left" and r: "merge_sort ?r param = Inr right"
    and m: "merge left right param = Inr ys" by blast
  have lenl: "1 \<le> length ?l" and lenr: "1 \<le> length ?r" using big by auto
  have ne: "left \<noteq> []" "right \<noteq> []"
    using merge_sort_mset[OF l] merge_sort_mset[OF r] lenl lenr
    by (metis length_0_conv mset_eq_length not_one_le_zero)+
  note heads = merge_heads_have_key[OF m ne]
  have inl: "map_of x param \<noteq> None" if "x \<in> set ?l" for x
  proof (cases "2 \<le> length ?l")
    case True
    from "1.IH"(1)[OF big l True that] show ?thesis .
  next
    case False
    then have "merge_sort ?l param = Inr ?l" by (subst merge_sort.simps) simp
    with l have "left = ?l" by simp
    moreover from False lenl have "length ?l = 1" by linarith
    then obtain y where "?l = [y]" by (cases ?l) auto
    ultimately show ?thesis using heads that by simp
  qed
  have inr: "map_of x param \<noteq> None" if "x \<in> set ?r" for x
  proof (cases "2 \<le> length ?r")
    case True
    from "1.IH"(2)[OF big l r True that] show ?thesis .
  next
    case False
    then have "merge_sort ?r param = Inr ?r" by (subst merge_sort.simps) simp
    with r have "right = ?r" by simp
    moreover from False lenr have "length ?r = 1" by linarith
    then obtain y where "?r = [y]" by (cases ?r) auto
    ultimately show ?thesis using heads that by simp
  qed
  have "d \<in> set ?l \<union> set ?r"
    using "1.prems"(3) by (metis append_take_drop_id set_append)
  then show ?case using inl inr by blast
qed

section \<open>What update removes and appends\<close>












section \<open>The claims\<close>

lemmas query_defs =
  get_one_def get_def load_docs_def fast_path_def general_path_def merge_sort.simps
  binary_search_def bs_loop.simps merge_def getitem_def list_index_def matchDocs_def

lemmas mutation_defs =
  insert_doc_def insert_many_def update_one_def update_def remove_one_def remove_def
  dict_update_def doc_eq_def Let_def

subsection \<open>C1: a document just inserted is found again\<close>

text \<open>
  C1 says that after \<^verbatim>\<open>insert(D)\<close> a \<^verbatim>\<open>findOne\<close> on any one field of \<open>D\<close> returns a
  document equal to \<open>D\<close>. The binary search loops while \<^verbatim>\<open>l < u\<close> with
  \<^verbatim>\<open>u = len(arr) - 1\<close>, so it never probes the last position its bracket closes on. In a
  group that was empty, the document \<^verbatim>\<open>{"a": 1}\<close> is inserted and
  \<^verbatim>\<open>get_one({"a": 1})\<close> returns \<^verbatim>\<open>False\<close>; with two documents the second one is not found
  either, the first one is.
\<close>

theorem inserted_document_not_found:
  "get_one L (snd (insert_doc \<lparr>preLoad = False, cache = [], disk = []\<rparr> [(''a'', VInt 1)] []))
     [(''a'', Plain (VInt 1))] None = Inr PyFalse
   \<and> get_one L
       (snd (insert_doc \<lparr>preLoad = False, cache = [], disk = [[(''a'', VInt 1)]]\<rparr>
              [(''a'', VInt 2)] []))
       [(''a'', Plain (VInt 2))] None = Inr PyFalse
   \<and> get_one L
       (snd (insert_doc \<lparr>preLoad = False, cache = [], disk = [[(''a'', VInt 2)]]\<rparr>
              [(''a'', VInt 1)] []))
       [(''a'', Plain (VInt 1))] None = Inr (Doc [(''a'', VInt 1)])"
  by (simp add: query_defs mutation_defs)

subsection \<open>C2: the fast path and the linear scan\<close>

text \<open>
  C2 says that for one plain-equality filter the fast path (sort, then binary search) and the
  linear scan agree on whether a document matches. On the sequence holding the single document
  \<^verbatim>\<open>{"a": 1}\<close> and the filter \<^verbatim>\<open>{"a": 1}\<close> the fast path returns \<^verbatim>\<open>False\<close> and the linear
  scan returns the document: the same loop bound as in C1.
\<close>

theorem fast_path_disagrees_with_linear_scan:
  "fast_path [[(''a'', VInt 1)]] ''a'' (VInt 1) = Inr PyFalse
   \<and> linear_scan L [[(''a'', VInt 1)]] [(''a'', Plain (VInt 1))] = Inr (Doc [(''a'', VInt 1)])"
  by (simp add: query_defs)

subsection \<open>C3: a document without a filter's field\<close>

text \<open>
  C3 says that a document lacking a field named in the filters is a non-match and the query
  completes. With the documents \<^verbatim>\<open>{"a": 1}\<close> and \<^verbatim>\<open>{"b": 2}\<close> the query
  \<^verbatim>\<open>get_one({"a": 1})\<close> takes the fast path, sorts by \<^verbatim>\<open>a\<close> and raises the
  \<^verbatim>\<open>ValueError\<close> of \<^verbatim>\<open>merge\<close>, although no sort key was asked for; \<^verbatim>\<open>get\<close> with the
  same filter treats the second document as a non-match and returns the first, and so does
  \<^verbatim>\<open>get_one\<close> on its general path: with the documents \<^verbatim>\<open>{"b": 2}\<close> and
  \<^verbatim>\<open>{"a": 1, "c": 3}\<close>, \<^verbatim>\<open>get_one({"a": 1, "c": 3})\<close> returns the second.
\<close>

theorem get_one_raises_on_missing_filter_field:
  "get_one L \<lparr>preLoad = False, cache = [], disk = [[(''a'', VInt 1)], [(''b'', VInt 2)]]\<rparr>
     [(''a'', Plain (VInt 1))] None = Inl SortParamError
   \<and> get L \<lparr>preLoad = False, cache = [], disk = [[(''a'', VInt 1)], [(''b'', VInt 2)]]\<rparr>
       [(''a'', Plain (VInt 1))] None = Inr [[(''a'', VInt 1)]]
   \<and> get_one L
       \<lparr>preLoad = False, cache = [],
        disk = [[(''b'', VInt 2)], [(''a'', VInt 1), (''c'', VInt 3)]]\<rparr>
       [(''a'', Plain (VInt 1)), (''c'', Plain (VInt 3))] None
     = Inr (Doc [(''a'', VInt 1), (''c'', VInt 3)])"
  by (simp add: query_defs)

subsection \<open>C4: a document without the sort key\<close>

text \<open>
  C4 says that the sort fails with the error about the sort parameter whenever a document
  lacks the key. \<^verbatim>\<open>merge_sort\<close> returns a sequence of fewer than two documents as it is,
  without looking at any key: the single document \<^verbatim>\<open>{"other": 0}\<close> is returned when sorting
  by \<^verbatim>\<open>k\<close>.
\<close>

theorem merge_sort_single_document_without_key:
  "map_of [(''other'', VInt 0)] ''k'' = None
   \<and> merge_sort [[(''other'', VInt 0)]] ''k'' = Inr [[(''other'', VInt 0)]]"
  by (simp add: merge_sort.simps)

text \<open>
  C4 as amended: on a sequence of at least two documents of which one lacks the key, the sort
  never returns normally, and when the key values that are present can be compared with one
  another the exception is the error about the sort parameter (otherwise a \<^verbatim>\<open>TypeError\<close> of
  the comparison may come first). A sequence of fewer than two documents is returned unchanged.
\<close>

theorem merge_sort_missing_key:
  "(2 \<le> length xs \<and> (\<exists>d\<in>set xs. map_of d k = None) \<longrightarrow> (\<exists>err. merge_sort xs k = Inl err))
   \<and> (2 \<le> length xs \<and> (\<exists>d\<in>set xs. map_of d k = None) \<and> comparable_keys k xs \<longrightarrow>
        merge_sort xs k = Inl SortParamError)
   \<and> (length xs < 2 \<longrightarrow> merge_sort xs k = Inr xs)"
proof -
  have fails: "\<exists>err. merge_sort xs k = Inl err"
    if len: "2 \<le> length xs" and d: "d \<in> set xs" "map_of d k = None" for d
  proof (cases "merge_sort xs k")
    case (Inl err)
    then show ?thesis by blast
  next
    case (Inr ys)
    from merge_sort_has_keys[OF Inr len d(1)] d(2) show ?thesis by simp
  qed
  have sort_error: "merge_sort xs k = Inl SortParamError"
    if len: "2 \<le> length xs" and d: "d \<in> set xs" "map_of d k = None"
      and c: "comparable_keys k xs" for d
  proof -
    from fails[OF len d] obtain err where err: "merge_sort xs k = Inl err" ..
    from merge_sort_error[OF err c] err show ?thesis by simp
  qed
  have short: "merge_sort xs k = Inr xs" if "length xs < 2"
    using that by (subst merge_sort.simps) simp
  from fails sort_error short show ?thesis by blast
qed

text \<open>
  Instances: three documents, the second without the key \<^verbatim>\<open>k\<close>; and one document without
  it.
\<close>

theorem merge_sort_missing_key_witness:
  "2 \<le> length [[(''k'', VInt 2)], [(''other'', VInt 0)], [(''k'', VInt 1)]]
   \<and> map_of [(''other'', VInt 0)] ''k'' = None
   \<and> comparable_keys ''k'' [[(''k'', VInt 2)], [(''other'', VInt 0)], [(''k'', VInt 1)]]
   \<and> merge_sort [[(''k'', VInt 2)], [(''other'', VInt 0)], [(''k'', VInt 1)]] ''k''
       = Inl SortParamError
   \<and> length [[(''other'', VInt 0)]] < 2
   \<and> merge_sort [[(''other'', VInt 0)]] ''k'' = Inr [[(''other'', VInt 0)]]"
  using merge_sort_missing_key[of "[[(''k'', VInt 2)], [(''other'', VInt 0)], [(''k'', VInt 1)]]" "''k''"]
        merge_sort_missing_key[of "[[(''other'', VInt 0)]]" "''k''"]
  by (simp add: comparable_keys_def)

subsection \<open>C5: what the sort returns\<close>

text \<open>
  C5 says that whenever every document has the key, the sort returns a sorted, stable
  permutation. Both documents of \<^verbatim>\<open>[{"k": 1}, {"k": "a"}]\<close> have the key, and the sort
  raises the \<^verbatim>\<open>TypeError\<close> of \<^verbatim>\<open>1 <= "a"\<close>.
\<close>

theorem merge_sort_mixed_keys_raises:
  "map_of [(''k'', VInt 1)] ''k'' \<noteq> None \<and> map_of [(''k'', VStr ''a'')] ''k'' \<noteq> None
   \<and> merge_sort [[(''k'', VInt 1)], [(''k'', VStr ''a'')]] ''k'' = Inl TypeError"
  by (simp add: merge_sort.simps merge_def getitem_def)

text \<open>
  C5 as amended: when every document has the key and the key values are all numbers or all
  strings, the sort returns a sequence that is a permutation of its argument, is ordered
  ascending by the key (\<^verbatim>\<open>d[k] <= e[k]\<close> for every \<open>d\<close> before \<open>e\<close>), and is stable:
  for every value, the documents whose key equals it come in the order they had.
\<close>

theorem merge_sort_sorts:
  assumes "number_keys k xs \<or> string_keys k xs"
  shows "\<exists>ys. merge_sort xs k = Inr ys \<and> mset ys = mset xs \<and> sorted_wrt (key_le k) ys
           \<and> (\<forall>v. filter (key_is k v) ys = filter (key_is k v) xs)"
  using assms
proof
  assume n: "number_keys k xs"
  show ?thesis
  proof (rule sorted_by_rank[OF ranked_numbers[OF n]])
    fix v
    show "(\<forall>d\<in>set xs. \<not> key_is k v d) \<or> (\<exists>c. \<forall>d\<in>set xs. key_is k v d = (num_rank k d = c))"
    proof (cases "num_of v")
      case None
      have "\<not> key_is k v d" if "d \<in> set xs" for d
        using number_keysD[OF n that] None by (auto simp: key_is_def py_eq_num)
      then show ?thesis by blast
    next
      case (Some c)
      have "key_is k v d = (num_rank k d = c)" if "d \<in> set xs" for d
        using number_keysD[OF n that] Some by (auto simp: key_is_def num_rank_def py_eq_num)
      then show ?thesis by blast
    qed
  qed
next
  assume s: "string_keys k xs"
  show ?thesis
  proof (rule sorted_by_rank[OF ranked_strings[OF s]])
    fix v
    show "(\<forall>d\<in>set xs. \<not> key_is k v d) \<or> (\<exists>c. \<forall>d\<in>set xs. key_is k v d = (str_rank k d = c))"
    proof (cases "\<exists>t. v = VStr t")
      case False
      have "\<not> key_is k v d" if "d \<in> set xs" for d
        using string_keysD[OF s that] False by (cases v) (auto simp: key_is_def)
      then show ?thesis by blast
    next
      case True
      then obtain t where "v = VStr t" ..
      then have "key_is k v d = (str_rank k d = t)" if "d \<in> set xs" for d
        using string_keysD[OF s that] by (auto simp: key_is_def str_rank_def)
      then show ?thesis by blast
    qed
  qed
qed

text \<open>
  An instance: the specification's example \<^verbatim>\<open>[{"k": 1, "id": "a"}, {"k": 1, "id": "b"}]\<close>
  with a third document in front of it whose key is larger.
\<close>

theorem merge_sort_sorts_witness:
  "number_keys ''k''
     [[(''k'', VInt 2), (''id'', VStr ''c'')], [(''k'', VInt 1), (''id'', VStr ''a'')],
      [(''k'', VInt 1), (''id'', VStr ''b'')]]
   \<and> merge_sort
       [[(''k'', VInt 2), (''id'', VStr ''c'')], [(''k'', VInt 1), (''id'', VStr ''a'')],
        [(''k'', VInt 1), (''id'', VStr ''b'')]] ''k''
     = Inr [[(''k'', VInt 1), (''id'', VStr ''a'')], [(''k'', VInt 1), (''id'', VStr ''b'')],
            [(''k'', VInt 2), (''id'', VStr ''c'')]]
   \<and> (\<exists>ys. merge_sort
              [[(''k'', VInt 2), (''id'', VStr ''c'')], [(''k'', VInt 1), (''id'', VStr ''a'')],
               [(''k'', VInt 1), (''id'', VStr ''b'')]] ''k'' = Inr ys
          \<and> sorted_wrt (key_le ''k'') ys
          \<and> filter (key_is ''k'' (VInt 1)) ys
              = [[(''k'', VInt 1), (''id'', VStr ''a'')], [(''k'', VInt 1), (''id'', VStr ''b'')]])"
proof -
  have n: "number_keys ''k''
     [[(''k'', VInt 2), (''id'', VStr ''c'')], [(''k'', VInt 1), (''id'', VStr ''a'')],
      [(''k'', VInt 1), (''id'', VStr ''b'')]]"
    by (simp add: number_keys_def)
  have e: "merge_sort
       [[(''k'', VInt 2), (''id'', VStr ''c'')], [(''k'', VInt 1), (''id'', VStr ''a'')],
        [(''k'', VInt 1), (''id'', VStr ''b'')]] ''k''
     = Inr [[(''k'', VInt 1), (''id'', VStr ''a'')], [(''k'', VInt 1), (''id'', VStr ''b'')],
            [(''k'', VInt 2), (''id'', VStr ''c'')]]"
    by (simp add: merge_sort.simps merge_def getitem_def)
  from merge_sort_sorts[OF disjI1, OF n] obtain ys where
    ys: "merge_sort
       [[(''k'', VInt 2), (''id'', VStr ''c'')], [(''k'', VInt 1), (''id'', VStr ''a'')],
        [(''k'', VInt 1), (''id'', VStr ''b'')]] ''k'' = Inr ys"
      "sorted_wrt (key_le ''k'') ys"
      "\<And>v. filter (key_is ''k'' v) ys = filter (key_is ''k'' v)
          [[(''k'', VInt 2), (''id'', VStr ''c'')], [(''k'', VInt 1), (''id'', VStr ''a'')],
           [(''k'', VInt 1), (''id'', VStr ''b'')]]"
    by blast
  have "filter (key_is ''k'' (VInt 1)) ys
      = [[(''k'', VInt 1), (''id'', VStr ''a'')], [(''k'', VInt 1), (''id'', VStr ''b'')]]"
    unfolding ys(3) by (simp add: key_is_def)
  with n e ys(1,2) show ?thesis by blast
qed

subsection \<open>C6: the operator table\<close>

text \<open>
  C6 says, among other things, that an operator mapping with an unknown tag fails with
  \<^verbatim>\<open>InvalidFilterError\<close>. The loop returns \<^verbatim>\<open>False\<close> at the first operator that rejects
  the value and does not look at the tags after it: \<^verbatim>\<open>matchDocs(5, {"__gt": 30, "__zz": None})\<close>
  returns \<^verbatim>\<open>False\<close>.
\<close>

theorem unknown_tag_after_rejecting_operator:
  "''__zz'' \<notin> set known_tags
   \<and> matchDocs example_lib (VInt 5) (Ops [(''__gt'', OVal (VInt 30)), (''__zz'', OVal VNone)])
       = Inr False"
  by (simp add: matchDocs_def known_tags_def)

text \<open>
  C6 as amended. A specification whose type is not \<^verbatim>\<open>dict\<close> matches exactly the values
  equal to it. For a \<^verbatim>\<open>dict\<close> of operators: \<^verbatim>\<open>{"__gt": v}\<close> matches exactly the values
  for which \<^verbatim>\<open>value <= v\<close> evaluates to false, which among integers and booleans, and among
  strings, are exactly the values strictly greater than \<open>v\<close> (31 and not 30 when \<open>v\<close> is 30);
  \<^verbatim>\<open>{"__re": p}\<close> returns what \<^verbatim>\<open>re.match\<close> says of \<open>p\<close> and the value's string form, and
  fails with \<^verbatim>\<open>InvalidRegExpError\<close> when \<open>p\<close> is not a valid pattern; an unknown tag fails
  with \<^verbatim>\<open>InvalidFilterError\<close> when every operator before it in the dictionary accepts the
  value. Nothing is said here of floating-point values (the test \<^verbatim>\<open>not (value <= v)\<close> accepts
  a NaN, which is greater than nothing) nor of a mapping of another class than \<^verbatim>\<open>dict\<close>.
\<close>

theorem matchDocs_operator_table:
  "(\<not> is_dict (Plain v) \<longrightarrow> matchDocs L x (Plain v) = Inr (py_eq v x))
   \<and> (matchDocs L x (Ops [(''__gt'', OVal v)]) = Inr True \<longleftrightarrow> py_cmp Le x v = Inr False)
   \<and> (num_of x = Some m \<and> num_of v = Some n \<longrightarrow>
        matchDocs L x (Ops [(''__gt'', OVal v)]) = Inr (n < m))
   \<and> matchDocs L (VStr s) (Ops [(''__gt'', OVal (VStr t))]) = Inr (t < s)
   \<and> matchDocs L (VInt 31) (Ops [(''__gt'', OVal (VInt 30))]) = Inr True
   \<and> matchDocs L (VInt 30) (Ops [(''__gt'', OVal (VInt 30))]) = Inr False
   \<and> matchDocs L x (Ops [(''__re'', OVal (VStr p))])
       = (case re_match L p (py_str L x) of None \<Rightarrow> Inl InvalidRegExpError | Some r \<Rightarrow> Inr r)
   \<and> (tag \<notin> set known_tags \<and> match_ops L x before = Inr True \<longrightarrow>
        matchDocs L x (Ops (before @ (tag, y) # rest)) = Inl InvalidFilterError)"
proof (intro conjI impI)
  assume "\<not> is_dict (Plain v)"
  then show "matchDocs L x (Plain v) = Inr (py_eq v x)"
    by (simp add: matchDocs_def)
next
  show "matchDocs L x (Ops [(''__gt'', OVal v)]) = Inr True \<longleftrightarrow> py_cmp Le x v = Inr False"
    by (auto simp: matchDocs_def split: sum.splits)
next
  assume "num_of x = Some m \<and> num_of v = Some n"
  then have "py_cmp Le x v = Inr (m \<le> n)"
    using py_cmp_num[of x m v n Le] by simp
  then show "matchDocs L x (Ops [(''__gt'', OVal v)]) = Inr (n < m)"
    by (auto simp: matchDocs_def)
next
  show "matchDocs L (VStr s) (Ops [(''__gt'', OVal (VStr t))]) = Inr (t < s)"
    by (auto simp: matchDocs_def)
next
  show "matchDocs L (VInt 31) (Ops [(''__gt'', OVal (VInt 30))]) = Inr True"
    by (simp add: matchDocs_def)
next
  show "matchDocs L (VInt 30) (Ops [(''__gt'', OVal (VInt 30))]) = Inr False"
    by (simp add: matchDocs_def)
next
  show "matchDocs L x (Ops [(''__re'', OVal (VStr p))])
       = (case re_match L p (py_str L x) of None \<Rightarrow> Inl InvalidRegExpError | Some r \<Rightarrow> Inr r)"
    by (simp add: matchDocs_def split: option.splits)
next
  assume "tag \<notin> set known_tags \<and> match_ops L x before = Inr True"
  then show "matchDocs L x (Ops (before @ (tag, y) # rest)) = Inl InvalidFilterError"
    by (simp add: matchDocs_def match_ops_append match_ops_unknown del: match_ops.simps)
qed

text \<open>
  Instances, with the example library: the filters \<^verbatim>\<open>"open"\<close>, \<^verbatim>\<open>{"__gt": 30}\<close> on 31 and
  on \<^verbatim>\<open>True\<close>, \<^verbatim>\<open>{"__re": "^A"}\<close> on \<^verbatim>\<open>"Alice"\<close> and \<^verbatim>\<open>"bob"\<close>, and
  \<^verbatim>\<open>{"__gt": 30, "__zz": None}\<close> on 31.
\<close>

theorem matchDocs_operator_table_witness:
  "\<not> is_dict (Plain (VStr ''open''))
   \<and> matchDocs example_lib (VStr ''open'') (Plain (VStr ''open'')) = Inr True
   \<and> matchDocs example_lib (VStr ''closed'') (Plain (VStr ''open'')) = Inr False
   \<and> num_of (VInt 31) = Some 31 \<and> num_of (VBool True) = Some 1 \<and> num_of (VInt 30) = Some 30
   \<and> matchDocs example_lib (VInt 31) (Ops [(''__gt'', OVal (VInt 30))]) = Inr True
   \<and> py_cmp Le (VInt 31) (VInt 30) = Inr False
   \<and> matchDocs example_lib (VBool True) (Ops [(''__gt'', OVal (VInt 30))]) = Inr False
   \<and> matchDocs example_lib (VStr ''Alice'') (Ops [(''__re'', OVal (VStr ''^A''))]) = Inr True
   \<and> matchDocs example_lib (VStr ''bob'') (Ops [(''__re'', OVal (VStr ''^A''))]) = Inr False
   \<and> ''__zz'' \<notin> set known_tags
   \<and> match_ops example_lib (VInt 31) [(''__gt'', OVal (VInt 30))] = Inr True
   \<and> matchDocs example_lib (VInt 31) (Ops ([(''__gt'', OVal (VInt 30))] @ [(''__zz'', OVal VNone)]))
       = Inl InvalidFilterError"
  using matchDocs_operator_table[of "VStr ''open''" example_lib "VStr ''open''" 0 0 "''a''" "''b''"
          "''^A''" "''__zz''" "[(''__gt'', OVal (VInt 30))]" "OVal VNone" "[]"]
        matchDocs_operator_table[of "VInt 30" example_lib "VInt 31" 31 30 "''a''" "''b''"
          "''^A''" "''__zz''" "[(''__gt'', OVal (VInt 30))]" "OVal VNone" "[]"]
        matchDocs_operator_table[of "VInt 30" example_lib "VBool True" 1 30 "''a''" "''b''"
          "''^A''" "''__zz''" "[(''__gt'', OVal (VInt 30))]" "OVal VNone" "[]"]
  by (simp add: matchDocs_def example_lib_def known_tags_def)

subsection \<open>C7: the count of update and the query after it\<close>




subsection \<open>C8: the mirror and the file\<close>

text \<open>
  C8 says that with \<^verbatim>\<open>preLoad\<close> set, a mutation that starts with the mirror equal to the
  parsed file ends with the mirror equal to the parsed file. Every mutation makes its change
  twice, once on \<^verbatim>\<open>self.data\<close> and once on the sequence read from the file, and the
  change to \<^verbatim>\<open>self.data\<close> puts the caller's own object there while the file receives what
  \<^verbatim>\<open>json.dumps\<close> writes of it. After \<^verbatim>\<open>insert({"t": (1, 2)})\<close> the mirror holds
  \<^verbatim>\<open>{"t": (1, 2)}\<close> and the file parses to \<^verbatim>\<open>{"t": [1, 2]}\<close>, and
  \<^verbatim>\<open>(1, 2) == [1, 2]\<close> is false. \<^verbatim>\<open>fetch_data\<close>, which fills the mirror when the group is
  opened, stores what \<^verbatim>\<open>json.loads\<close> returns; \<^verbatim>\<open>insert\<close>, \<^verbatim>\<open>insert_many\<close>,
  \<^verbatim>\<open>update_one\<close> and \<^verbatim>\<open>update\<close> do not. The tuple is not a value of \<open>pyval\<close>, so the
  input is stated here and not evaluated; on the values of \<open>pyval\<close> the two changes are the
  same, as the definitions of the six operations show.
\<close>

subsection \<open>C9: update\_one and remove\_one when nothing matches\<close>

text \<open>
  C9: when no document the query reads matches the filters, \<^verbatim>\<open>update_one\<close> and
  \<^verbatim>\<open>remove_one\<close> raise an exception, and they raise it before anything is written: the
  group is left as it was, file and mirror.
\<close>

theorem no_match_raises_before_write:
  assumes "\<forall>d \<in> set (load_docs g). doc_matches L d fs \<noteq> Inr True"
  shows "(\<exists>e. update_one L g fs nValues = (Inl e, g)) \<and> (\<exists>e. remove_one L g fs = (Inl e, g))"
proof -
  have "get_one L g fs None \<noteq> Inr (Doc d)" for d
    using get_one_found[of L g fs None d] assms by blast
  then show ?thesis
    by (auto simp: update_one_def remove_one_def split: sum.splits found.splits)
qed

text \<open>
  An instance: the group holds \<^verbatim>\<open>{"a": 1}\<close> and \<^verbatim>\<open>{"a": 3}\<close>, the filter asks for
  \<^verbatim>\<open>a == 2\<close>.
\<close>

theorem no_match_raises_before_write_witness:
  "doc_matches example_lib [(''a'', VInt 1)] [(''a'', Plain (VInt 2))] \<noteq> Inr True
   \<and> doc_matches example_lib [(''a'', VInt 3)] [(''a'', Plain (VInt 2))] \<noteq> Inr True
   \<and> (\<exists>e. update_one example_lib
            \<lparr>preLoad = False, cache = [], disk = [[(''a'', VInt 1)], [(''a'', VInt 3)]]\<rparr>
            [(''a'', Plain (VInt 2))] [(''a'', VInt 5)]
          = (Inl e, \<lparr>preLoad = False, cache = [], disk = [[(''a'', VInt 1)], [(''a'', VInt 3)]]\<rparr>))
   \<and> (\<exists>e. remove_one example_lib
            \<lparr>preLoad = False, cache = [], disk = [[(''a'', VInt 1)], [(''a'', VInt 3)]]\<rparr>
            [(''a'', Plain (VInt 2))]
          = (Inl e, \<lparr>preLoad = False, cache = [], disk = [[(''a'', VInt 1)], [(''a'', VInt 3)]]\<rparr>))"
proof -
  have h: "\<forall>d \<in> set (load_docs
              \<lparr>preLoad = False, cache = [], disk = [[(''a'', VInt 1)], [(''a'', VInt 3)]]\<rparr>).
            doc_matches example_lib d [(''a'', Plain (VInt 2))] \<noteq> Inr True"
    by (simp add: load_docs_def getitem_def matchDocs_def)
  show ?thesis
    using no_match_raises_before_write[OF h, of "[(''a'', VInt 5)]"]
    by (simp add: getitem_def matchDocs_def)
qed

subsection \<open>C10: where the updated documents go\<close>





end
